theory Spec2Isabelle
  imports Main "HOL-Library.Word"
begin

unbundle bit_operations_syntax

section \<open>Machine model\<close>

text \<open>
  The programs work on \<open>uint8_t\<close> and \<open>uint16_t\<close> values. A byte buffer is a list of
  bytes; an array index is a C \<open>int\<close> (operands of \<open>[]\<close> are promoted), modelled as
  \<open>int\<close>.
\<close>

type_synonym u8 = "8 word"
type_synonym u16 = "16 word"

text \<open>The struct \<open>BatteryStatusData\<close> of \<open>com3-gm.c\<close>.\<close>

record BatteryStatusData =
  battery_voltage_mV :: u16
  has_battery_error :: bool
  is_under_voltage :: bool
  is_battery_supported :: bool

text \<open>
  What an execution leaves behind, in order: \<open>Read i\<close> is one evaluation of
  \<open>received_packet[i]\<close> (or of \<open>data_buffer[i - 2]\<close>, the same byte, inside the checksum
  routine), \<open>Call_calculate_checksum\<close> is one entry into \<open>calculate_checksum\<close>.
\<close>

datatype event = Read int | Call_calculate_checksum

text \<open>
  The store a call works on: the bytes \<open>received_packet\<close> points to, the object
  \<open>out_data\<close> points to, and the events so far.
\<close>

record machine =
  packet :: "u8 list"
  out_data :: BatteryStatusData
  trace :: "event list"

text \<open>
  Reading \<open>received_packet[i]\<close>. A read outside the buffer is undefined behaviour in C:
  the model yields \<open>None\<close> there, and every caller passes \<open>None\<close> on.
\<close>

definition load :: "int \<Rightarrow> machine \<Rightarrow> u8 option \<times> machine" where
  "load i s =
     (if 0 \<le> i \<and> i < int (length (packet s)) then Some (packet s ! nat i) else None,
      s\<lparr>trace := trace s @ [Read i]\<rparr>)"

section \<open>The checksum routine\<close>

text \<open>
  \<open>calculate_checksum\<close> of \<open>com3-gm.c\<close> and \<open>com-5cg.c\<close>, and
  \<open>ODM_com_checksum_calc\<close> of \<open>com3-cg.c\<close>: the three bodies are the same statements.
  \<open>checksum_step\<close> is the loop body after the byte has been read:
  \<open>tmp += data_buffer[i]; if (tmp >= 256u) tmp -= 255u;\<close> on a \<open>uint16_t\<close>.
\<close>

definition checksum_step :: "u16 \<Rightarrow> u8 \<Rightarrow> u16" where
  "checksum_step tmp b =
     (let tmp1 = tmp + ucast b in if tmp1 \<ge> 256 then tmp1 - 255 else tmp1)"

text \<open>
  The \<open>for\<close> loop, entered with counter \<open>i\<close> and accumulator \<open>tmp\<close>. The pointer
  \<open>data_buffer\<close> is the offset of its target inside the packet, \<open>len\<close> and \<open>i\<close> are
  \<open>uint8_t\<close>.
\<close>

function checksum_loop :: "int \<Rightarrow> u8 \<Rightarrow> u8 \<Rightarrow> u16 \<Rightarrow> machine \<Rightarrow> u16 option \<times> machine" where
  "checksum_loop data_buffer len i tmp s =
     (if i < len then
        (case load (data_buffer + uint i) s of
           (None, s') \<Rightarrow> (None, s')
         | (Some b, s') \<Rightarrow> checksum_loop data_buffer len (i + 1) (checksum_step tmp b) s')
      else (Some tmp, s))"
  by pat_completeness auto
termination
proof (relation "measure (\<lambda>(data_buffer, len, i, tmp, s). unat len - unat i)")
  show "wf (measure (\<lambda>(data_buffer, len, i, tmp, s). unat len - unat i))"
    by simp
next
  fix data_buffer :: int and len i :: u8 and tmp :: u16 and s :: machine
    and x :: "u8 option \<times> machine" and x1 :: "u8 option" and x2 :: machine and x2a :: u8
  assume lt: "i < len"
  from lt have "unat i < unat len"
    by (simp add: word_less_nat_alt)
  moreover have "unat len < 256"
    using unsigned_less [of len, where ?'a = nat] by simp
  ultimately have "unat (i + 1) = unat i + 1" and "unat i < unat len"
    by (simp_all add: unat_word_ariths)
  then show "((data_buffer, len, i + 1, checksum_step tmp x2a, x2), data_buffer, len, i, tmp, s)
      \<in> measure (\<lambda>(data_buffer, len, i, tmp, s). unat len - unat i)"
    by simp
qed

declare checksum_loop.simps [simp del]

definition calculate_checksum :: "u8 \<Rightarrow> int \<Rightarrow> u8 \<Rightarrow> machine \<Rightarrow> u8 option \<times> machine" where
  "calculate_checksum cid data_buffer len s =
     (case checksum_loop data_buffer len 0 (ucast cid)
             (s\<lparr>trace := trace s @ [Call_calculate_checksum]\<rparr>) of
        (None, s') \<Rightarrow> (None, s')
      | (Some tmp, s') \<Rightarrow> (Some (ucast ((NOT tmp) AND 0x00FF)), s'))"

text \<open>
  The checksum as the specification words it: a 16-bit accumulator starts at the command
  id; each data byte, in order, is added and 255 is subtracted when the accumulator has
  reached 256; the result is the complement of the accumulator, masked to its low 8 bits.
\<close>

definition computeChecksum_spec :: "u8 \<Rightarrow> u8 list \<Rightarrow> u8" where
  "computeChecksum_spec commandId data =
     (let accumulator :: u16 =
            fold (\<lambda>byte acc. if acc + ucast byte \<ge> 256 then acc + ucast byte - 255
                              else acc + ucast byte)
              data (ucast commandId)
      in ucast (NOT accumulator AND 255))"

section \<open>The frame decoder of \<open>com3-gm.c\<close>\<close>

definition COMCHIP_SYNC_BYTE :: u8 where
  "COMCHIP_SYNC_BYTE = 0x55"

definition COMCHIP_CID_GET_STATUS_RESP :: u8 where
  "COMCHIP_CID_GET_STATUS_RESP = 0x81"

definition COMCHIP_STATUS_FRAME_LEN :: int where
  "COMCHIP_STATUS_FRAME_LEN = 7"

definition STATUS_BIT_BATTERY_ERROR :: int where
  "STATUS_BIT_BATTERY_ERROR = push_bit 7 1"

definition STATUS_BIT_UNDER_VOLTAGE :: int where
  "STATUS_BIT_UNDER_VOLTAGE = push_bit 6 1"

definition STATUS_BIT_NOT_SUPPORTED :: int where
  "STATUS_BIT_NOT_SUPPORTED = push_bit 5 1"

text \<open>
  The function returns \<open>false\<close> at four places, each after one \<open>printf\<close> of its own.
  The model names the place by the message and keeps the two values the message prints:
  \<open>Invalid_frame_size expected got\<close> (``Invalid frame size''),
  \<open>Invalid_SYNC_byte expected got\<close> (``Invalid SYNC byte''),
  \<open>Invalid_CID expected got\<close> (``Invalid CID'') and
  \<open>Checksum_mismatch calculated received\<close> (``Checksum mismatch'').
\<close>

datatype frame_error =
    Invalid_frame_size int int
  | Invalid_SYNC_byte u8 u8
  | Invalid_CID u8 u8
  | Checksum_mismatch u8 u8

datatype verdict = Returned_true | Returned_false frame_error

text \<open>Sequencing of steps on the store; a step that read outside the packet ends the run.\<close>

definition return_m :: "'a \<Rightarrow> machine \<Rightarrow> 'a option \<times> machine" where
  "return_m a s = (Some a, s)"

definition bind_m ::
  "(machine \<Rightarrow> 'a option \<times> machine) \<Rightarrow> ('a \<Rightarrow> machine \<Rightarrow> 'b option \<times> machine) \<Rightarrow>
   machine \<Rightarrow> 'b option \<times> machine" where
  "bind_m m f s = (case m s of (None, s') \<Rightarrow> (None, s') | (Some a, s') \<Rightarrow> f a s')"

text \<open>An assignment \<open>out_data->field = v\<close>, given as the update of the struct.\<close>

definition store_out ::
  "(BatteryStatusData \<Rightarrow> BatteryStatusData) \<Rightarrow> machine \<Rightarrow> unit option \<times> machine" where
  "store_out upd s = (Some (), s\<lparr>out_data := upd (out_data s)\<rparr>)"

text \<open>
  \<open>process_comchip_status_packet(received_packet, packet_len, out_data)\<close>: the two
  pointers are the \<open>packet\<close> and \<open>out_data\<close> of the store, and \<open>packet_len\<close> is what
  the caller passes as the length. Every evaluation of \<open>received_packet[k]\<close> in the
  source is one \<open>load\<close>, those in the arguments of \<open>printf\<close> too. The console is not
  part of the store: the message of a failure lives on in the error, the message of
  success has no counterpart.
\<close>

definition process_comchip_status_packet :: "u16 \<Rightarrow> machine \<Rightarrow> verdict option \<times> machine" where
  "process_comchip_status_packet packet_len =
     (if uint packet_len \<noteq> COMCHIP_STATUS_FRAME_LEN then
        return_m (Returned_false (Invalid_frame_size COMCHIP_STATUS_FRAME_LEN (uint packet_len)))
      else bind_m (load 0) (\<lambda>sync.
      if sync \<noteq> COMCHIP_SYNC_BYTE then
        bind_m (load 0) (\<lambda>got.
        return_m (Returned_false (Invalid_SYNC_byte COMCHIP_SYNC_BYTE got)))
      else bind_m (load 1) (\<lambda>cid.
      if cid \<noteq> COMCHIP_CID_GET_STATUS_RESP then
        bind_m (load 1) (\<lambda>got.
        return_m (Returned_false (Invalid_CID COMCHIP_CID_GET_STATUS_RESP got)))
      else bind_m (load 1) (\<lambda>cid_arg.
      bind_m (calculate_checksum cid_arg 2 (word_of_int (COMCHIP_STATUS_FRAME_LEN - 3)))
        (\<lambda>calculated_cs.
      bind_m (load (uint packet_len - 1)) (\<lambda>received_cs.
      if calculated_cs \<noteq> received_cs then
        return_m (Returned_false (Checksum_mismatch calculated_cs received_cs))
      else bind_m (load 2) (\<lambda>status_byte.
      bind_m (load 3) (\<lambda>voltage_high_byte.
      bind_m (load 4) (\<lambda>voltage_low_byte.
      bind_m (store_out (battery_voltage_mV_update
                (\<lambda>_. push_bit 8 (ucast voltage_high_byte) OR ucast voltage_low_byte))) (\<lambda>_.
      bind_m (store_out (has_battery_error_update
                (\<lambda>_. (uint status_byte AND STATUS_BIT_BATTERY_ERROR) \<noteq> 0))) (\<lambda>_.
      bind_m (store_out (is_under_voltage_update
                (\<lambda>_. (uint status_byte AND STATUS_BIT_UNDER_VOLTAGE) \<noteq> 0))) (\<lambda>_.
      bind_m (store_out (is_battery_supported_update
                (\<lambda>_. (uint status_byte AND STATUS_BIT_NOT_SUPPORTED) = 0))) (\<lambda>_.
      return_m Returned_true)))))))))))))"

text \<open>
  A store at the start of a call: the packet bytes, the caller's \<open>status_data\<close>, no
  events yet. \<open>main\<close> leaves \<open>status_data\<close> uninitialised; the evaluations at concrete
  packets below start from \<open>zero_status\<close>.
\<close>

definition machine_of :: "u8 list \<Rightarrow> BatteryStatusData \<Rightarrow> machine" where
  "machine_of bytes out = \<lparr>packet = bytes, out_data = out, trace = []\<rparr>"

definition zero_status :: BatteryStatusData where
  "zero_status = \<lparr>battery_voltage_mV = 0, has_battery_error = False,
     is_under_voltage = False, is_battery_supported = False\<rparr>"

section \<open>Facts about the checksum routine\<close>

lemma unat_u8_lt: "unat (b :: u8) < 256"
  using unsigned_less [of b, where ?'a = nat] by simp

lemma unat_ucast_u8_u16: "unat (ucast (b :: u8) :: u16) = unat b"
  using unat_u8_lt [of b] by (simp add: unsigned_ucast_eq take_bit_nat_eq_self_iff)

lemma unat_add_byte:
  assumes "tmp < 256"
  shows "unat (tmp + ucast (b :: u8) :: u16) = unat tmp + unat b"
proof -
  from assms have "unat tmp < 256" by (simp add: word_less_nat_alt)
  with unat_u8_lt [of b] show ?thesis
    by (simp add: unat_word_ariths unat_ucast_u8_u16)
qed

lemma checksum_step_unat:
  assumes "tmp < 256"
  shows "unat (checksum_step tmp b) =
    (if 256 \<le> unat tmp + unat b then unat tmp + unat b - 255 else unat tmp + unat b)"
proof -
  have s: "unat (tmp + ucast b) = unat tmp + unat b"
    using assms by (rule unat_add_byte)
  show ?thesis
  proof (cases "256 \<le> tmp + ucast b")
    case True
    then have "(255 :: u16) \<le> tmp + ucast b"
      by (simp add: word_le_nat_alt)
    then have "unat (tmp + ucast b - 255) = unat (tmp + ucast b) - 255"
      by (simp add: unat_sub)
    with True s show ?thesis
      by (simp add: checksum_step_def Let_def word_le_nat_alt)
  next
    case False
    with s show ?thesis
      by (simp add: checksum_step_def Let_def word_le_nat_alt)
  qed
qed

lemma checksum_step_lt: "tmp < 256 \<Longrightarrow> checksum_step tmp b < 256"
proof -
  assume a: "tmp < 256"
  then have "unat tmp < 256" by (simp add: word_less_nat_alt)
  with unat_u8_lt [of b] have "unat (checksum_step tmp b) < 256"
    unfolding checksum_step_unat [OF a] by (simp split: if_splits) arith
  then show ?thesis by (simp add: word_less_nat_alt)
qed

lemma ucast_cid_lt: "(ucast (cid :: u8) :: u16) < 256"
  using unat_u8_lt [of cid] by (simp add: word_less_nat_alt unat_ucast_u8_u16)

lemma load_in_bounds:
  "0 \<le> i \<Longrightarrow> i < int (length (packet s)) \<Longrightarrow>
   load i s = (Some (packet s ! nat i), s\<lparr>trace := trace s @ [Read i]\<rparr>)"
  by (simp add: load_def)

lemma checksum_loop_in_bounds:
  "0 \<le> p \<Longrightarrow> p + uint len \<le> int (length (packet s)) \<Longrightarrow> i \<le> len \<Longrightarrow>
   checksum_loop p len i tmp s =
     (Some (fold (\<lambda>b t. checksum_step t b)
              (take (unat len - unat i) (drop (nat p + unat i) (packet s))) tmp),
      s\<lparr>trace := trace s @ map (\<lambda>k. Read (p + int k)) [unat i..<unat len]\<rparr>)"
proof (induction p len i tmp s rule: checksum_loop.induct)
  case (1 p len i tmp s)
  show ?case
  proof (cases "i < len")
    case False
    with "1.prems" have "i = len" by simp
    then show ?thesis
      by (simp add: checksum_loop.simps [of p len len])
  next
    case True
    then have lt: "unat i < unat len"
      by (simp add: word_less_nat_alt)
    with unat_u8_lt [of len] have suc: "unat (i + 1) = Suc (unat i)"
      by (simp add: unat_word_ariths)
    with lt have le: "i + 1 \<le> len"
      by (simp add: word_le_nat_alt)
    define k where "k = nat p + unat i"
    define s' where "s' = s\<lparr>trace := trace s @ [Read (p + uint i)]\<rparr>"
    have ui: "uint i = int (unat i)" by simp
    from True have "uint i < uint len"
      by (simp add: word_less_def)
    with "1.prems" have inb: "0 \<le> p + uint i" "p + uint i < int (length (packet s))"
      by simp_all
    have kk: "nat (p + uint i) = k" using "1.prems"(1) by (simp add: k_def nat_add_distrib)
    have ld: "load (p + uint i) s = (Some (packet s ! k), s')"
      using load_in_bounds [OF inb] by (simp add: kk s'_def)
    have klt: "k < length (packet s)" using inb kk by linarith
    have IH: "checksum_loop p len (i + 1) (checksum_step tmp (packet s ! k)) s' =
      (Some (fold (\<lambda>b t. checksum_step t b)
              (take (unat len - unat (i + 1)) (drop (nat p + unat (i + 1)) (packet s')))
              (checksum_step tmp (packet s ! k))),
       s'\<lparr>trace := trace s' @ map (\<lambda>k. Read (p + int k)) [unat (i + 1)..<unat len]\<rparr>)"
      using "1.IH" [OF True ld [symmetric] refl "1.prems"(1) _ le] "1.prems"(2)
      by (simp add: s'_def)
    have tk: "take (unat len - unat i) (drop k (packet s)) =
        packet s ! k # take (unat len - Suc (unat i)) (drop (Suc k) (packet s))"
      using lt klt by (simp add: Cons_nth_drop_Suc [symmetric] take_Cons')
    have up: "[unat i..<unat len] = unat i # [Suc (unat i)..<unat len]"
      using lt by (simp add: upt_conv_Cons)
    have "checksum_loop p len i tmp s =
        checksum_loop p len (i + 1) (checksum_step tmp (packet s ! k)) s'"
      by (subst checksum_loop.simps) (simp only: True if_True ld prod.case option.case)
    also note IH
    finally show ?thesis
      by (simp add: suc tk up s'_def k_def [symmetric] ui del: of_nat_unat)
  qed
qed

lemma fold_step_eq_spec:
  "ucast (NOT (fold (\<lambda>b t. checksum_step t b) data (ucast cid)) AND 0x00FF) =
   computeChecksum_spec cid data"
proof -
  have "(\<lambda>b t. checksum_step t b) =
      (\<lambda>byte acc. if acc + ucast byte \<ge> 256 then acc + ucast byte - 255
                              else acc + ucast byte)"
    by (simp add: checksum_step_def Let_def fun_eq_iff)
  then show ?thesis
    by (simp add: computeChecksum_spec_def Let_def)
qed

lemma calculate_checksum_in_bounds:
  assumes "0 \<le> p" and "p + uint len \<le> int (length (packet s))"
  shows "calculate_checksum cid p len s =
     (Some (computeChecksum_spec cid (take (unat len) (drop (nat p) (packet s)))),
      s\<lparr>trace := trace s @ Call_calculate_checksum #
             map (\<lambda>k. Read (p + int k)) [0..<unat len]\<rparr>)"
proof -
  define s0 where "s0 = s\<lparr>trace := trace s @ [Call_calculate_checksum]\<rparr>"
  have "checksum_loop p len 0 (ucast cid) s0 =
     (Some (fold (\<lambda>b t. checksum_step t b)
              (take (unat len - unat (0 :: u8)) (drop (nat p + unat (0 :: u8)) (packet s0)))
              (ucast cid)),
      s0\<lparr>trace := trace s0 @ map (\<lambda>k. Read (p + int k)) [unat (0 :: u8)..<unat len]\<rparr>)"
    using assms by (intro checksum_loop_in_bounds) (simp_all add: s0_def)
  then show ?thesis
    by (simp add: calculate_checksum_def s0_def [symmetric] fold_step_eq_spec)
      (simp add: s0_def)
qed

lemma spec_vector: "computeChecksum_spec 0x81 [0x00, 0x96, 0xFE] = 0xE8"
  by (simp add: computeChecksum_spec_def)

text \<open>
  The routine changes neither the packet nor \<open>out_data\<close>, and its result depends on
  the store through the packet bytes only.
\<close>

lemma load_frame:
  "packet (snd (load i s)) = packet s" "out_data (snd (load i s)) = out_data s"
  by (simp_all add: load_def)

lemma load_store_indep: "packet s' = packet s \<Longrightarrow> fst (load i s') = fst (load i s)"
  by (simp add: load_def)

lemma checksum_loop_frame:
  "packet (snd (checksum_loop p len i tmp s)) = packet s \<and>
   out_data (snd (checksum_loop p len i tmp s)) = out_data s"
proof (induction p len i tmp s rule: checksum_loop.induct)
  case (1 p len i tmp s)
  show ?case
  proof (cases "i < len")
    case False
    then show ?thesis by (simp add: checksum_loop.simps [of p len i])
  next
    case True
    obtain r s1 where ld: "load (p + uint i) s = (r, s1)"
      by (cases "load (p + uint i) s")
    with load_frame [of "p + uint i" s] have fr: "packet s1 = packet s" "out_data s1 = out_data s"
      by simp_all
    show ?thesis
    proof (cases r)
      case None
      with True ld fr show ?thesis
        by (simp add: checksum_loop.simps [of p len i])
    next
      case (Some b)
      with "1.IH" [OF True ld [symmetric]] True ld fr show ?thesis
        by (simp add: checksum_loop.simps [of p len i])
    qed
  qed
qed

lemma checksum_loop_store_indep:
  "packet s' = packet s \<Longrightarrow>
   fst (checksum_loop p len i tmp s') = fst (checksum_loop p len i tmp s)"
proof (induction p len i tmp s arbitrary: s' rule: checksum_loop.induct)
  case (1 p len i tmp s)
  show ?case
  proof (cases "i < len")
    case False
    then show ?thesis
      by (simp add: checksum_loop.simps [of p len i])
  next
    case True
    obtain r s1 where ld: "load (p + uint i) s = (r, s1)"
      by (cases "load (p + uint i) s")
    obtain r' s1' where ld': "load (p + uint i) s' = (r', s1')"
      by (cases "load (p + uint i) s'")
    from load_store_indep [OF "1.prems", of "p + uint i"] ld ld' have rr: "r' = r"
      by simp
    from load_frame(1) [of "p + uint i" s] load_frame(1) [of "p + uint i" s'] ld ld' "1.prems"
    have pk: "packet s1' = packet s1"
      by simp
    show ?thesis
    proof (cases r)
      case None
      with True ld ld' rr show ?thesis
        by (simp add: checksum_loop.simps [of p len i])
    next
      case (Some b)
      with "1.IH" [OF True ld [symmetric] _ pk] True ld ld' rr show ?thesis
        by (simp add: checksum_loop.simps [of p len i])
    qed
  qed
qed

lemma checksum_loop_lt:
  "tmp < 256 \<Longrightarrow> checksum_loop p len i tmp s = (Some r, s') \<Longrightarrow> r < 256"
proof (induction p len i tmp s rule: checksum_loop.induct)
  case (1 p len i tmp s)
  show ?case
  proof (cases "i < len")
    case False
    with "1.prems" show ?thesis
      by (simp add: checksum_loop.simps [of p len i])
  next
    case True
    obtain x s1 where ld: "load (p + uint i) s = (x, s1)"
      by (cases "load (p + uint i) s")
    show ?thesis
    proof (cases x)
      case None
      with True ld "1.prems"(2) show ?thesis
        by (simp add: checksum_loop.simps [of p len i])
    next
      case (Some b)
      with True ld "1.prems"(2)
      have "checksum_loop p len (i + 1) (checksum_step tmp b) s1 = (Some r, s')"
        by (simp add: checksum_loop.simps [of p len i])
      with "1.IH" [OF True ld [symmetric] _ checksum_step_lt [OF "1.prems"(1)]] Some
      show ?thesis by simp
    qed
  qed
qed

lemma calculate_checksum_frame:
  "packet (snd (calculate_checksum cid p len s)) = packet s"
  "out_data (snd (calculate_checksum cid p len s)) = out_data s"
  using checksum_loop_frame [of p len 0 "ucast cid" "s\<lparr>trace := trace s @ [Call_calculate_checksum]\<rparr>"]
  by (auto simp add: calculate_checksum_def split: prod.splits option.splits)

lemma calculate_checksum_store_indep:
  assumes "packet s' = packet s"
  shows "fst (calculate_checksum cid p len s') = fst (calculate_checksum cid p len s)"
proof -
  have "fst (checksum_loop p len 0 (ucast cid) (s'\<lparr>trace := trace s' @ [Call_calculate_checksum]\<rparr>)) =
        fst (checksum_loop p len 0 (ucast cid) (s\<lparr>trace := trace s @ [Call_calculate_checksum]\<rparr>))"
    using assms by (intro checksum_loop_store_indep) simp
  then show ?thesis
    by (auto simp add: calculate_checksum_def split: prod.splits option.splits)
qed

section \<open>Facts about the frame decoder\<close>

text \<open>
  A status bit is tested on the promoted byte; the voltage is the big-endian value of its
  two bytes. The decoder on a seven-byte packet takes one of four ways, told apart by the
  bytes of the packet.
\<close>

lemma status_bit_test:
  "((uint (b :: u8) AND push_bit n 1) \<noteq> 0) = bit b n"
  by (auto simp add: push_bit_of_1 and_exp_eq_0_iff_not_bit bit_uint_iff dest: bit_imp_le_length)

lemma status_bit_numerals:
  "((uint (b :: u8) AND 128) \<noteq> 0) = bit b 7"
  "((uint b AND 64) \<noteq> 0) = bit b 6"
  "((uint b AND 32) = 0) = (\<not> bit b 5)"
  using status_bit_test [of b 7] status_bit_test [of b 6] status_bit_test [of b 5]
  by auto

lemma voltage_value:
  "unat (push_bit 8 (ucast (h :: u8)) OR ucast (l :: u8) :: u16) = 256 * unat h + unat l"
proof -
  have d: "push_bit 8 (unat h) OR unat l = push_bit 8 (unat h) + unat l"
    using unat_u8_lt [of l]
    by (intro disjunctive_add_eq_or [symmetric] bit_eqI)
       (auto simp add: bit_simps dest: bit_imp_le_length)
  have "unat (push_bit 8 (ucast h) OR ucast l :: u16) =
      take_bit 16 (push_bit 8 (unat h)) OR unat l"
    by (simp add: unsigned_or_eq unsigned_push_bit_eq unat_ucast_u8_u16)
  also have "take_bit 16 (push_bit 8 (unat h)) = push_bit 8 (unat h)"
    using unat_u8_lt [of h] by (simp add: take_bit_nat_eq_self_iff push_bit_eq_mult)
  finally show ?thesis
    using d by (simp add: push_bit_eq_mult)
qed

lemma BatteryStatusData_all_fields:
  "r\<lparr>battery_voltage_mV := v, has_battery_error := e, is_under_voltage := u,
      is_battery_supported := p\<rparr> =
   \<lparr>battery_voltage_mV = v, has_battery_error = e, is_under_voltage = u,
      is_battery_supported = p\<rparr>"
  by (cases r) simp

lemma upt_4: "[0..<4] = [0, 1, 2, 3]"
  by (simp add: upt_rec)

lemmas process_defs =
  process_comchip_status_packet_def bind_m_def return_m_def load_def store_out_def
  COMCHIP_SYNC_BYTE_def COMCHIP_CID_GET_STATUS_RESP_def COMCHIP_STATUS_FRAME_LEN_def
  STATUS_BIT_BATTERY_ERROR_def STATUS_BIT_UNDER_VOLTAGE_def STATUS_BIT_NOT_SUPPORTED_def

lemma process_wrong_size:
  "uint packet_len \<noteq> 7 \<Longrightarrow>
   process_comchip_status_packet packet_len s =
     (Some (Returned_false (Invalid_frame_size 7 (uint packet_len))), s)"
  by (simp add: process_defs)

lemma process_bad_sync:
  "length (packet s) = 7 \<Longrightarrow> packet s ! 0 \<noteq> 0x55 \<Longrightarrow>
   process_comchip_status_packet 7 s =
     (Some (Returned_false (Invalid_SYNC_byte 0x55 (packet s ! 0))),
      s\<lparr>trace := trace s @ [Read 0, Read 0]\<rparr>)"
  by (cases "packet s") (simp_all add: process_defs)

lemma process_bad_cid:
  "length (packet s) = 7 \<Longrightarrow> packet s ! 0 = 0x55 \<Longrightarrow> packet s ! 1 \<noteq> 0x81 \<Longrightarrow>
   process_comchip_status_packet 7 s =
     (Some (Returned_false (Invalid_CID 0x81 (packet s ! 1))),
      s\<lparr>trace := trace s @ [Read 0, Read 1, Read 1]\<rparr>)"
  by (simp add: process_defs)

lemma process_bad_checksum:
  "length (packet s) = 7 \<Longrightarrow> packet s ! 0 = 0x55 \<Longrightarrow> packet s ! 1 = 0x81 \<Longrightarrow>
   computeChecksum_spec 0x81 (take 4 (drop 2 (packet s))) \<noteq> packet s ! 6 \<Longrightarrow>
   process_comchip_status_packet 7 s =
     (Some (Returned_false (Checksum_mismatch
        (computeChecksum_spec 0x81 (take 4 (drop 2 (packet s)))) (packet s ! 6))),
      s\<lparr>trace := trace s @ [Read 0, Read 1, Read 1, Call_calculate_checksum,
          Read 2, Read 3, Read 4, Read 5, Read 6]\<rparr>)"
  by (simp add: process_defs calculate_checksum_in_bounds upt_4)

lemma process_accept:
  "length (packet s) = 7 \<Longrightarrow> packet s ! 0 = 0x55 \<Longrightarrow> packet s ! 1 = 0x81 \<Longrightarrow>
   computeChecksum_spec 0x81 (take 4 (drop 2 (packet s))) = packet s ! 6 \<Longrightarrow>
   process_comchip_status_packet 7 s =
     (Some Returned_true,
      s\<lparr>out_data := \<lparr>battery_voltage_mV =
             push_bit 8 (ucast (packet s ! 3)) OR ucast (packet s ! 4),
           has_battery_error = bit (packet s ! 2) 7,
           is_under_voltage = bit (packet s ! 2) 6,
           is_battery_supported = (\<not> bit (packet s ! 2) 5)\<rparr>,
        trace := trace s @ [Read 0, Read 1, Read 1, Call_calculate_checksum,
          Read 2, Read 3, Read 4, Read 5, Read 6, Read 2, Read 3, Read 4]\<rparr>)"
  by (simp add: process_defs calculate_checksum_in_bounds upt_4 status_bit_numerals
      BatteryStatusData_all_fields)

lemma process_len7_cases:
  assumes len: "length (packet s) = 7"
  obtains
    (sync) "packet s ! 0 \<noteq> 0x55"
  | (cid) "packet s ! 0 = 0x55" "packet s ! 1 \<noteq> 0x81"
  | (checksum) "packet s ! 0 = 0x55" "packet s ! 1 = 0x81"
      "computeChecksum_spec 0x81 (take 4 (drop 2 (packet s))) \<noteq> packet s ! 6"
  | (accept) "packet s ! 0 = 0x55" "packet s ! 1 = 0x81"
      "computeChecksum_spec 0x81 (take 4 (drop 2 (packet s))) = packet s ! 6"
  by blast

lemma checksum_call_len7:
  assumes "length (packet s) = 7"
  shows "fst (calculate_checksum cid 2 4 s) =
    Some (computeChecksum_spec cid (take 4 (drop 2 (packet s))))"
  using assms by (simp add: calculate_checksum_in_bounds)

lemmas run_defs =
  machine_of_def zero_status_def process_defs calculate_checksum_def checksum_loop.simps
  checksum_step_def

section \<open>The claims\<close>

subsection \<open>C1: the checksum routine computes the reference checksum\<close>

text \<open>
  C1. \<open>calculate_checksum(cid, data_buffer, len)\<close> returns the reference checksum of
  \<open>cid\<close> and the data, for every command id and every data: the data of a call are the
  \<open>len\<close> bytes at \<open>data_buffer\<close> (\<open>len\<close> is a \<open>uint8_t\<close>, so these are the byte
  sequences of up to 255 bytes), and the call must be able to read them, that is, they lie
  inside the packet.
\<close>

theorem calculate_checksum_refines_spec:
  assumes "0 \<le> data_buffer" and "data_buffer + uint len \<le> int (length (packet s))"
  shows "fst (calculate_checksum cid data_buffer len s) =
    Some (computeChecksum_spec cid (take (unat len) (drop (nat data_buffer) (packet s))))"
  by (simp add: calculate_checksum_in_bounds [OF assms])

text \<open>
  The call of \<open>process_comchip_status_packet\<close> on the under-voltage packet of \<open>main\<close>.
\<close>

theorem calculate_checksum_refines_spec_witness:
  "fst (calculate_checksum 0x81 2 4
      (machine_of [0x55, 0x81, 0x40, 0x96, 0xFE, 0x00, 0xFF] zero_status)) =
    Some (computeChecksum_spec 0x81 [0x40, 0x96, 0xFE, 0x00])"
  using calculate_checksum_refines_spec
    [of 2 4 "machine_of [0x55, 0x81, 0x40, 0x96, 0xFE, 0x00, 0xFF] zero_status" "0x81"]
  by (simp add: machine_of_def)

subsection \<open>C2: a status is written only by an accepted frame\<close>

text \<open>
  C2. For a packet of \<open>packet_len\<close> bytes the decoder ends in one of two ways. Either it
  returns \<open>true\<close>; then the length is 7, the first byte is \<open>0x55\<close>, the second is
  \<open>0x81\<close>, the checksum routine returned the last byte, and every field of \<open>*out_data\<close>
  holds a value read from the packet. Or it returns \<open>false\<close> with one error, and
  \<open>*out_data\<close> is what it was before the call.
\<close>

theorem decode_all_or_nothing:
  assumes "length (packet s) = unat packet_len"
  shows "(fst (process_comchip_status_packet packet_len s) = Some Returned_true \<and>
      packet_len = 7 \<and> packet s ! 0 = 0x55 \<and> packet s ! 1 = 0x81 \<and>
      fst (calculate_checksum (packet s ! 1) 2 4 s) = Some (packet s ! 6) \<and>
      out_data (snd (process_comchip_status_packet packet_len s)) =
        \<lparr>battery_voltage_mV = push_bit 8 (ucast (packet s ! 3)) OR ucast (packet s ! 4),
         has_battery_error = bit (packet s ! 2) 7,
         is_under_voltage = bit (packet s ! 2) 6,
         is_battery_supported = (\<not> bit (packet s ! 2) 5)\<rparr>) \<or>
    (\<exists>e. fst (process_comchip_status_packet packet_len s) = Some (Returned_false e) \<and>
      out_data (snd (process_comchip_status_packet packet_len s)) = out_data s)"
proof (cases "packet_len = 7")
  case False
  then have "uint packet_len \<noteq> 7"
    by (metis uint_numeral word_uint_eq_iff take_bit_eq_mod word_of_int_uint word_of_int_numeral)
  then show ?thesis
    by (simp add: process_wrong_size)
next
  case True
  with assms have len: "length (packet s) = 7"
    by simp
  from len show ?thesis
  proof (cases rule: process_len7_cases)
    case sync
    with len True show ?thesis by (simp add: process_bad_sync)
  next
    case cid
    with len True show ?thesis by (simp add: process_bad_cid)
  next
    case checksum
    with len True show ?thesis by (simp add: process_bad_checksum)
  next
    case accept
    with len True checksum_call_len7 [OF len, of "0x81"] show ?thesis
      by (simp add: process_accept)
  qed
qed

text \<open>
  A frame with a matching checksum byte: the first disjunct.
\<close>

theorem decode_all_or_nothing_witness:
  "length (packet (machine_of [0x55, 0x81, 0x00, 0x96, 0xFE, 0x00, 0xE8] zero_status)) =
     unat (7 :: u16) \<and>
   fst (process_comchip_status_packet 7
     (machine_of [0x55, 0x81, 0x00, 0x96, 0xFE, 0x00, 0xE8] zero_status)) = Some Returned_true \<and>
   out_data (snd (process_comchip_status_packet 7
     (machine_of [0x55, 0x81, 0x00, 0x96, 0xFE, 0x00, 0xE8] zero_status))) =
     \<lparr>battery_voltage_mV = 0x96FE, has_battery_error = False,
      is_under_voltage = False, is_battery_supported = True\<rparr>"
  using decode_all_or_nothing
    [of "machine_of [0x55, 0x81, 0x00, 0x96, 0xFE, 0x00, 0xE8] zero_status" 7]
  by (simp add: run_defs)

subsection \<open>C3: the known vector\<close>

text \<open>
  C3 says that the checksum of command id \<open>0x81\<close> over the bytes \<open>0x00, 0x96, 0xFE\<close> is
  \<open>0x3F\<close>. The routine returns \<open>0xE8\<close>: \<open>0x81 + 0x00 = 0x81\<close>,
  \<open>0x81 + 0x96 = 0x117\<close> reduced to \<open>0x18\<close>, \<open>0x18 + 0xFE = 0x116\<close> reduced to
  \<open>0x17\<close>, whose complement is \<open>0xE8\<close>. The reference definition of the
  specification gives the same byte (\<open>spec_vector\<close>). Amended claim, for every store
  whose three bytes at \<open>data_buffer\<close> are \<open>0x00, 0x96, 0xFE\<close>: the call
  \<open>calculate_checksum(0x81, data_buffer, 3)\<close> returns \<open>0xE8\<close>.
\<close>

theorem known_vector_checksum:
  assumes "0 \<le> p" and "take 3 (drop (nat p) (packet s)) = [0x00, 0x96, 0xFE]"
  shows "fst (calculate_checksum 0x81 p 3 s) = Some 0xE8 \<and>
    computeChecksum_spec 0x81 [0x00, 0x96, 0xFE] = 0xE8"
proof -
  from assms(2) have "length (take 3 (drop (nat p) (packet s))) = 3"
    by simp
  then have "nat p + 3 \<le> length (packet s)"
    by (simp add: min_def split: if_splits)
  with assms(1) have "p + uint (3 :: u8) \<le> int (length (packet s))"
    by simp
  from calculate_checksum_in_bounds [OF assms(1) this, of "0x81"] assms(2) show ?thesis
    by (simp add: spec_vector)
qed

text \<open>
  The call of \<open>main\<close> in \<open>com-5cg.c\<close>, on its sample packet.
\<close>

theorem known_vector_checksum_witness:
  "take 3 (drop (nat 2) (packet (machine_of [0x55, 0x81, 0x00, 0x96, 0xFE, 0x3F] zero_status))) =
     [0x00, 0x96, 0xFE] \<and>
   fst (calculate_checksum 0x81 2 3
     (machine_of [0x55, 0x81, 0x00, 0x96, 0xFE, 0x3F] zero_status)) = Some 0xE8"
  using known_vector_checksum [of 2 "machine_of [0x55, 0x81, 0x00, 0x96, 0xFE, 0x3F] zero_status"]
  by (simp add: machine_of_def)

text \<open>
  The same call does not return \<open>0x3F\<close>, the last byte of that sample packet.
\<close>

theorem known_vector_checksum_counterexample:
  "fst (calculate_checksum 0x81 2 3
     (machine_of [0x55, 0x81, 0x00, 0x96, 0xFE, 0x3F] zero_status)) \<noteq> Some 0x3F"
  by (simp add: calculate_checksum_def machine_of_def checksum_loop.simps load_def checksum_step_def)

subsection \<open>C4: the sample packet of \<open>main\<close>\<close>

text \<open>
  C4 says that the packet \<open>0x55, 0x81, 0x00, 0x96, 0xFE, 0x00, 0x3F\<close> is decoded to
  38654 mV, no error, no under-voltage, supported. Its last byte is not the checksum of the
  bytes before it, which is \<open>0xE8\<close>, so the decoder rejects it. Amended claim: for this
  packet the decoder returns \<open>false\<close> with the checksum mismatch of calculated
  \<open>0xE8\<close> and received \<open>0x3F\<close> and leaves \<open>*out_data\<close> as it was; for the same packet
  with last byte \<open>0xE8\<close> it returns \<open>true\<close> and writes 38654 mV, no error, no
  under-voltage, supported.
\<close>

theorem good_packet_decoding:
  "process_comchip_status_packet 7
     (machine_of [0x55, 0x81, 0x00, 0x96, 0xFE, 0x00, 0x3F] out) =
     (Some (Returned_false (Checksum_mismatch 0xE8 0x3F)),
      \<lparr>packet = [0x55, 0x81, 0x00, 0x96, 0xFE, 0x00, 0x3F], out_data = out,
       trace = [Read 0, Read 1, Read 1, Call_calculate_checksum,
         Read 2, Read 3, Read 4, Read 5, Read 6]\<rparr>) \<and>
   fst (process_comchip_status_packet 7
     (machine_of [0x55, 0x81, 0x00, 0x96, 0xFE, 0x00, 0xE8] out)) = Some Returned_true \<and>
   out_data (snd (process_comchip_status_packet 7
     (machine_of [0x55, 0x81, 0x00, 0x96, 0xFE, 0x00, 0xE8] out))) =
     \<lparr>battery_voltage_mV = 38654, has_battery_error = False,
      is_under_voltage = False, is_battery_supported = True\<rparr>"
  by (simp add: run_defs BatteryStatusData_all_fields)

text \<open>
  The first call of \<open>main\<close>, on a zeroed \<open>status_data\<close>.
\<close>

theorem good_packet_decoding_witness:
  "fst (process_comchip_status_packet 7
     (machine_of [0x55, 0x81, 0x00, 0x96, 0xFE, 0x00, 0x3F] zero_status)) =
     Some (Returned_false (Checksum_mismatch 0xE8 0x3F)) \<and>
   out_data (snd (process_comchip_status_packet 7
     (machine_of [0x55, 0x81, 0x00, 0x96, 0xFE, 0x00, 0x3F] zero_status))) = zero_status"
  using good_packet_decoding [of zero_status]
  by (simp add: machine_of_def)

text \<open>
  The decoder does not return \<open>true\<close> on the packet of the claim.
\<close>

theorem good_packet_counterexample:
  "fst (process_comchip_status_packet 7
     (machine_of [0x55, 0x81, 0x00, 0x96, 0xFE, 0x00, 0x3F] zero_status)) \<noteq> Some Returned_true"
  by (simp add: run_defs)

subsection \<open>C5: the fields of an accepted frame\<close>

text \<open>
  C5. A seven-byte packet passes all validation steps when its first byte is \<open>0x55\<close>, its
  second byte is \<open>0x81\<close> and its last byte is the checksum of the second byte over the four
  bytes \<open>raw[2..5]\<close>. On every such packet the decoder returns \<open>true\<close>, and the voltage
  it writes is \<open>(raw[3] << 8) | raw[4]\<close>, whose value is \<open>256 * raw[3] + raw[4]\<close>; the
  error flag is bit 7 of \<open>raw[2]\<close>, the under-voltage flag is bit 6, and the supported flag
  is the negation of bit 5.
\<close>

theorem accepted_frame_fields:
  assumes "length (packet s) = 7"
    and "packet s ! 0 = COMCHIP_SYNC_BYTE"
    and "packet s ! 1 = COMCHIP_CID_GET_STATUS_RESP"
    and "computeChecksum_spec (packet s ! 1) (take 4 (drop 2 (packet s))) = packet s ! 6"
  shows "fst (process_comchip_status_packet 7 s) = Some Returned_true \<and>
    battery_voltage_mV (out_data (snd (process_comchip_status_packet 7 s))) =
      push_bit 8 (ucast (packet s ! 3)) OR ucast (packet s ! 4) \<and>
    unat (battery_voltage_mV (out_data (snd (process_comchip_status_packet 7 s)))) =
      256 * unat (packet s ! 3) + unat (packet s ! 4) \<and>
    has_battery_error (out_data (snd (process_comchip_status_packet 7 s))) =
      bit (packet s ! 2) 7 \<and>
    is_under_voltage (out_data (snd (process_comchip_status_packet 7 s))) =
      bit (packet s ! 2) 6 \<and>
    is_battery_supported (out_data (snd (process_comchip_status_packet 7 s))) =
      (\<not> bit (packet s ! 2) 5)"
proof -
  from assms(2) have sync: "packet s ! 0 = 0x55"
    by (simp add: COMCHIP_SYNC_BYTE_def)
  from assms(3) have cid: "packet s ! 1 = 0x81"
    by (simp add: COMCHIP_CID_GET_STATUS_RESP_def)
  from assms(4) cid have cs: "computeChecksum_spec 0x81 (take 4 (drop 2 (packet s))) = packet s ! 6"
    by simp
  show ?thesis
    by (simp add: process_accept [OF assms(1) sync cid cs] voltage_value)
qed

text \<open>
  A frame with status byte \<open>0xC0\<close> and voltage bytes \<open>0x8C, 0xA0\<close>, whose checksum
  byte is \<open>0x90\<close>: it is accepted, with 36000 mV, error, under-voltage, supported.
\<close>

theorem accepted_frame_fields_witness:
  "computeChecksum_spec 0x81 [0xC0, 0x8C, 0xA0, 0x00] = 0x90 \<and>
   fst (process_comchip_status_packet 7
      (machine_of [0x55, 0x81, 0xC0, 0x8C, 0xA0, 0x00, 0x90] zero_status)) =
     Some Returned_true \<and>
   out_data (snd (process_comchip_status_packet 7
      (machine_of [0x55, 0x81, 0xC0, 0x8C, 0xA0, 0x00, 0x90] zero_status))) =
     \<lparr>battery_voltage_mV = 36000, has_battery_error = True,
      is_under_voltage = True, is_battery_supported = True\<rparr>"
  using accepted_frame_fields
    [of "machine_of [0x55, 0x81, 0xC0, 0x8C, 0xA0, 0x00, 0x90] zero_status"]
  by (simp add: run_defs computeChecksum_spec_def)

subsection \<open>C6: a wrong length is rejected before any byte is read\<close>

text \<open>
  C6. When \<open>packet_len\<close> is not 7 the decoder returns \<open>false\<close> with the frame-size
  error, and the store after the call is the store before it: no byte of the packet was
  read (the events are the same), whatever the packet holds.
\<close>

theorem wrong_length_rejected_unread:
  assumes "packet_len \<noteq> 7"
  shows "process_comchip_status_packet packet_len s =
    (Some (Returned_false (Invalid_frame_size 7 (uint packet_len))), s)"
proof -
  from assms have "uint packet_len \<noteq> 7"
    by (metis uint_numeral word_uint_eq_iff take_bit_eq_mod word_of_int_uint word_of_int_numeral)
  then show ?thesis
    by (rule process_wrong_size)
qed

text \<open>
  The short packet of \<open>main\<close>.
\<close>

theorem wrong_length_rejected_unread_witness:
  "process_comchip_status_packet 6 (machine_of [0x55, 0x81, 0x00, 0x96, 0xFE, 0x00] zero_status) =
    (Some (Returned_false (Invalid_frame_size 7 6)),
     machine_of [0x55, 0x81, 0x00, 0x96, 0xFE, 0x00] zero_status) \<and>
   trace (machine_of [0x55, 0x81, 0x00, 0x96, 0xFE, 0x00] zero_status) = []"
  using wrong_length_rejected_unread
    [of 6 "machine_of [0x55, 0x81, 0x00, 0x96, 0xFE, 0x00] zero_status"]
  by (simp add: machine_of_def)

subsection \<open>C7: a wrong first byte is rejected before the checksum\<close>

text \<open>
  C7. On a seven-byte packet whose first byte is not \<open>0x55\<close> the decoder returns
  \<open>false\<close> with the SYNC error; the call reads byte 0 only (once for the test, once for
  the message) and never enters \<open>calculate_checksum\<close>.
\<close>

theorem bad_sync_rejected_before_checksum:
  assumes "length (packet s) = 7" and "packet s ! 0 \<noteq> COMCHIP_SYNC_BYTE"
  shows "process_comchip_status_packet 7 s =
      (Some (Returned_false (Invalid_SYNC_byte COMCHIP_SYNC_BYTE (packet s ! 0))),
       s\<lparr>trace := trace s @ [Read 0, Read 0]\<rparr>) \<and>
    Call_calculate_checksum \<notin>
      set (drop (length (trace s)) (trace (snd (process_comchip_status_packet 7 s))))"
  using assms by (simp add: process_bad_sync COMCHIP_SYNC_BYTE_def)

text \<open>
  A frame that starts with \<open>0x54\<close>.
\<close>

theorem bad_sync_rejected_before_checksum_witness:
  "process_comchip_status_packet 7
     (machine_of [0x54, 0x81, 0x00, 0x96, 0xFE, 0x00, 0xE8] zero_status) =
     (Some (Returned_false (Invalid_SYNC_byte 0x55 0x54)),
      \<lparr>packet = [0x54, 0x81, 0x00, 0x96, 0xFE, 0x00, 0xE8], out_data = zero_status,
       trace = [Read 0, Read 0]\<rparr>)"
  using bad_sync_rejected_before_checksum
    [of "machine_of [0x54, 0x81, 0x00, 0x96, 0xFE, 0x00, 0xE8] zero_status"]
  by (simp add: machine_of_def COMCHIP_SYNC_BYTE_def)

subsection \<open>C8: the checksum routine is a function of its inputs\<close>

text \<open>
  C8. Two calls of \<open>calculate_checksum\<close> with the same command id, pointer and length
  return the same byte whenever the packet holds the same bytes, whatever else differs
  between the two stores; two calls that can read their data return the same byte
  whenever the command id and the \<open>len\<close> data bytes are the same, wherever the data lie;
  and a call leaves the packet (and \<open>*out_data\<close>) unchanged, so the first holds for a
  second call made after a first.
\<close>

theorem calculate_checksum_pure:
  "(packet s' = packet s \<longrightarrow>
      fst (calculate_checksum cid data_buffer len s') =
      fst (calculate_checksum cid data_buffer len s)) \<and>
   (0 \<le> data_buffer \<and> data_buffer + uint len \<le> int (length (packet s)) \<and>
    0 \<le> data_buffer' \<and> data_buffer' + uint len \<le> int (length (packet s')) \<and>
    take (unat len) (drop (nat data_buffer') (packet s')) =
      take (unat len) (drop (nat data_buffer) (packet s)) \<longrightarrow>
      fst (calculate_checksum cid data_buffer' len s') =
      fst (calculate_checksum cid data_buffer len s)) \<and>
   packet (snd (calculate_checksum cid data_buffer len s)) = packet s \<and>
   out_data (snd (calculate_checksum cid data_buffer len s)) = out_data s"
proof (intro conjI impI)
  assume "packet s' = packet s"
  then show "fst (calculate_checksum cid data_buffer len s') =
      fst (calculate_checksum cid data_buffer len s)"
    by (rule calculate_checksum_store_indep)
next
  assume "0 \<le> data_buffer \<and> data_buffer + uint len \<le> int (length (packet s)) \<and>
    0 \<le> data_buffer' \<and> data_buffer' + uint len \<le> int (length (packet s')) \<and>
    take (unat len) (drop (nat data_buffer') (packet s')) =
      take (unat len) (drop (nat data_buffer) (packet s))"
  then show "fst (calculate_checksum cid data_buffer' len s') =
      fst (calculate_checksum cid data_buffer len s)"
    by (simp add: calculate_checksum_in_bounds)
qed (simp_all add: calculate_checksum_frame)

text \<open>
  The call of \<open>main\<close> in \<open>com3-cg.c\<close>, made twice in a row.
\<close>

theorem calculate_checksum_pure_witness:
  "fst (calculate_checksum 0x81 2 3
      (snd (calculate_checksum 0x81 2 3
         (machine_of [0x55, 0x81, 0x00, 0x6D, 0x60, 0xD2] zero_status)))) =
   fst (calculate_checksum 0x81 2 3 (machine_of [0x55, 0x81, 0x00, 0x6D, 0x60, 0xD2] zero_status)) \<and>
   packet (snd (calculate_checksum 0x81 2 3
      (machine_of [0x55, 0x81, 0x00, 0x6D, 0x60, 0xD2] zero_status))) =
     [0x55, 0x81, 0x00, 0x6D, 0x60, 0xD2]"
  using calculate_checksum_pure
    [where s' = "snd (calculate_checksum 0x81 2 3
        (machine_of [0x55, 0x81, 0x00, 0x6D, 0x60, 0xD2] zero_status))"
      and s = "machine_of [0x55, 0x81, 0x00, 0x6D, 0x60, 0xD2] zero_status"
      and cid = "0x81" and data_buffer = 2 and data_buffer' = 2 and len = 3]
  by (simp add: machine_of_def)

subsection \<open>C9: the accumulator stays below 256\<close>

text \<open>
  C9. The accumulator enters the loop below 256. An iteration that starts below 256 adds
  a byte, which gives less than 511, takes the one reduction of the body, ends below 256
  and goes on as the loop entered with that accumulator. So the accumulator is below 256
  after every iteration, and the value the loop hands over to be complemented is below
  256.
\<close>

theorem accumulator_below_256:
  "(ucast (cid :: u8) :: u16) < 256 \<and>
   (tmp < 256 \<and> i < len \<and> load (data_buffer + uint i) s = (Some b, s1) \<longrightarrow>
      unat tmp + unat b < 511 \<and>
      checksum_step tmp b < 256 \<and>
      checksum_loop data_buffer len i tmp s =
        checksum_loop data_buffer len (i + 1) (checksum_step tmp b) s1) \<and>
   (checksum_loop data_buffer len 0 (ucast cid) s = (Some r, s') \<longrightarrow> r < 256)"
proof (intro conjI impI)
  show "(ucast cid :: u16) < 256" by (rule ucast_cid_lt)
next
  assume a: "tmp < 256 \<and> i < len \<and> load (data_buffer + uint i) s = (Some b, s1)"
  then have "unat tmp < 256" by (simp add: word_less_nat_alt)
  with unat_u8_lt [of b] show "unat tmp + unat b < 511" by simp
  from a show "checksum_step tmp b < 256" by (simp add: checksum_step_lt)
  from a show "checksum_loop data_buffer len i tmp s =
        checksum_loop data_buffer len (i + 1) (checksum_step tmp b) s1"
    by (subst checksum_loop.simps) simp
next
  assume "checksum_loop data_buffer len 0 (ucast cid) s = (Some r, s')"
  with ucast_cid_lt [of cid] show "r < 256" by (rule checksum_loop_lt)
qed

text \<open>
  The second iteration of the call in \<open>com-5cg.c\<close>, and the whole loop of that call.
\<close>

theorem accumulator_below_256_witness:
  "(0x81 :: u16) < 256 \<and> (1 :: u8) < 3 \<and>
   load (2 + uint (1 :: u8)) (machine_of [0x55, 0x81, 0x00, 0x96, 0xFE, 0x3F] zero_status) =
     (Some 0x96, snd (load 3 (machine_of [0x55, 0x81, 0x00, 0x96, 0xFE, 0x3F] zero_status))) \<and>
   checksum_step 0x81 0x96 = 0x18 \<and> checksum_step 0x81 0x96 < 256 \<and>
   fst (checksum_loop 2 3 0 (ucast (0x81 :: u8))
     (machine_of [0x55, 0x81, 0x00, 0x96, 0xFE, 0x3F] zero_status)) = Some 0x17 \<and>
   (0x17 :: u16) < 256"
  using accumulator_below_256 [of "0x81" "0x81" 1 3 2
      "machine_of [0x55, 0x81, 0x00, 0x96, 0xFE, 0x3F] zero_status" "0x96"
      "snd (load 3 (machine_of [0x55, 0x81, 0x00, 0x96, 0xFE, 0x3F] zero_status))"]
  by (simp add: run_defs)

subsection \<open>C10: every read lies inside the seven bytes\<close>

text \<open>
  C10. On a seven-byte packet with \<open>packet_len = 7\<close> the decoder never reads outside
  the packet: the run ends with a verdict, and every read of the call, those of the
  checksum routine among them, is at an index from 0 to 6.
\<close>

theorem reads_within_frame:
  assumes "length (packet s) = 7"
  shows "fst (process_comchip_status_packet 7 s) \<noteq> None \<and>
    (\<exists>evs. trace (snd (process_comchip_status_packet 7 s)) = trace s @ evs \<and>
      (\<forall>i. Read i \<in> set evs \<longrightarrow> 0 \<le> i \<and> i \<le> 6))"
  using assms
proof (cases rule: process_len7_cases)
  case sync
  with assms show ?thesis by (simp add: process_bad_sync)
next
  case cid
  with assms show ?thesis by (simp add: process_bad_cid)
next
  case checksum
  with assms show ?thesis by (auto simp add: process_bad_checksum)
next
  case accept
  with assms show ?thesis by (auto simp add: process_accept)
qed

text \<open>
  The reads of an accepted frame.
\<close>

theorem reads_within_frame_witness:
  "fst (process_comchip_status_packet 7
     (machine_of [0x55, 0x81, 0x00, 0x96, 0xFE, 0x00, 0xE8] zero_status)) \<noteq> None \<and>
   trace (snd (process_comchip_status_packet 7
     (machine_of [0x55, 0x81, 0x00, 0x96, 0xFE, 0x00, 0xE8] zero_status))) =
     [Read 0, Read 1, Read 1, Call_calculate_checksum, Read 2, Read 3, Read 4, Read 5,
      Read 6, Read 2, Read 3, Read 4]"
  using reads_within_frame
    [of "machine_of [0x55, 0x81, 0x00, 0x96, 0xFE, 0x00, 0xE8] zero_status"]
  by (simp add: run_defs)

end
